theory Spec2Isabelle
  imports Main "HOL-Library.Multiset" "HOL-Library.AList"
begin

section \<open>Agent template validation with spawnable agents\<close>

text \<open>
  The source file \<^verbatim>\<open>packages/internal/src/templates/agent-validation.ts\<close> holds one
  function, \<^verbatim>\<open>validateAgentsWithSpawnableAgents\<close>:
  \<^verbatim>\<open>
  const { agentIds, spawnableAgentIds } = collectAgentIds(params)
  const { validationErrors } = await validateSpawnableAgents({
    spawnableAgents: spawnableAgentIds,
    dynamicAgentIds: agentIds,
  })
  if (validationErrors.length > 0) {
    return { templates: {}, dynamicTemplates: {}, validationErrors }
  }
  return validateAgents(params)
  \<close>
  The three functions it calls are imported from other packages. They are parameters
  of the model, with the same names and in the order of their first use.
\<close>

subsection \<open>Data\<close>

text \<open>
  The argument object: the optional table of agent templates (a \<^verbatim>\<open>Record<string, any>\<close>)
  and the logger.
\<close>

record ('a, 'l) params =
  agentTemplates :: "(string \<rightharpoonup> 'a) option"
  logger :: 'l

text \<open>The two fields the function reads from the result of \<^verbatim>\<open>collectAgentIds\<close>.\<close>

record collected_ids =
  agentIds :: "string list"
  spawnableAgentIds :: "string list"

text \<open>The argument object built for \<^verbatim>\<open>validateSpawnableAgents\<close>.\<close>

record spawnable_check =
  spawnableAgents :: "string list"
  dynamicAgentIds :: "string list"

text \<open>
  The returned object: two tables keyed by agent id and the list of validation errors
  (\<^verbatim>\<open>DynamicAgentValidationError[]\<close>, an imported type: a type parameter here).
\<close>

record ('t, 'd, 'v) validation_result =
  templates :: "string \<rightharpoonup> 't"
  dynamicTemplates :: "string \<rightharpoonup> 'd"
  validationErrors :: "'v list"

subsection \<open>Effects\<close>

text \<open>
  The function is \<^verbatim>\<open>async\<close> and its callees receive a logger, so a call may change
  the world outside (write a log line, read a registry) and may throw or reject instead
  of returning. A computation is therefore a function from the world before the call to
  its outcome and the world after it; \<open>Inl\<close> is a thrown exception or a rejected
  promise, \<open>Inr\<close> a returned value.
\<close>

type_synonym ('w, 'e, 'r) eff = "'w \<Rightarrow> ('e + 'r) \<times> 'w"

subsection \<open>The function\<close>

text \<open>
  \<^verbatim>\<open>validateSpawnableAgents\<close> returns an object of which only the field
  \<^verbatim>\<open>validationErrors\<close> is read: the parameter returns that list. An exception of
  \<^verbatim>\<open>collectAgentIds\<close> or a rejection of the awaited promise leaves the function at
  once; the promise of \<^verbatim>\<open>validateAgents\<close> is returned as it is.
\<close>

definition validateAgentsWithSpawnableAgents ::
  "(('a, 'l) params \<Rightarrow> ('w, 'e, collected_ids) eff) \<Rightarrow>
   (spawnable_check \<Rightarrow> ('w, 'e, 'v list) eff) \<Rightarrow>
   (('a, 'l) params \<Rightarrow> ('w, 'e, ('t, 'd, 'v) validation_result) eff) \<Rightarrow>
   ('a, 'l) params \<Rightarrow> ('w, 'e, ('t, 'd, 'v) validation_result) eff" where
  "validateAgentsWithSpawnableAgents collectAgentIds validateSpawnableAgents validateAgents
     ps w =
     (case collectAgentIds ps w of
        (Inl e, w1) \<Rightarrow> (Inl e, w1)
      | (Inr ids, w1) \<Rightarrow>
          (case validateSpawnableAgents
                  \<lparr>spawnableAgents = spawnableAgentIds ids,
                   dynamicAgentIds = agentIds ids\<rparr> w1 of
             (Inl e, w2) \<Rightarrow> (Inl e, w2)
           | (Inr errs, w2) \<Rightarrow>
               if length errs > 0
               then (Inr \<lparr>templates = Map.empty, dynamicTemplates = Map.empty,
                          validationErrors = errs\<rparr>, w2)
               else validateAgents ps w2))"

text \<open>
  The spawnable-agent check of the source as one computation: collect the ids, then
  validate the spawnable ones against the collected agent ids.
\<close>

definition spawnable_agent_check ::
  "(('a, 'l) params \<Rightarrow> ('w, 'e, collected_ids) eff) \<Rightarrow>
   (spawnable_check \<Rightarrow> ('w, 'e, 'v list) eff) \<Rightarrow>
   ('a, 'l) params \<Rightarrow> ('w, 'e, 'v list) eff" where
  "spawnable_agent_check collectAgentIds validateSpawnableAgents ps w =
     (case collectAgentIds ps w of
        (Inl e, w1) \<Rightarrow> (Inl e, w1)
      | (Inr ids, w1) \<Rightarrow>
          validateSpawnableAgents
            \<lparr>spawnableAgents = spawnableAgentIds ids, dynamicAgentIds = agentIds ids\<rparr> w1)"

text \<open>
  Concrete collaborators for evaluating the function. The world is a log of the calls
  made; collecting the ids reads them off the template table's keys \<open>ks\<close> and a fixed
  list \<open>sp\<close> of spawnable ids; the check reports every spawnable id that is not an
  agent id; validating the agents yields one template per agent id.
\<close>

definition demo_collect ::
  "string list \<Rightarrow> string list \<Rightarrow> (unit, unit) params \<Rightarrow> (string list, string, collected_ids) eff"
  where
  "demo_collect ks sp ps w =
     (Inr \<lparr>agentIds = ks, spawnableAgentIds = sp\<rparr>, w @ [''collectAgentIds''])"

definition demo_check :: "spawnable_check \<Rightarrow> (string list, string, string list) eff" where
  "demo_check c w =
     (Inr (filter (\<lambda>s. s \<notin> set (dynamicAgentIds c)) (spawnableAgents c)),
      w @ [''validateSpawnableAgents''])"

definition demo_validate ::
  "string list \<Rightarrow> (unit, unit) params \<Rightarrow>
   (string list, string, (nat, nat, string) validation_result) eff" where
  "demo_validate ks ps w =
     (Inr \<lparr>templates = map_of (zip ks [0..<length ks]), dynamicTemplates = Map.empty,
           validationErrors = []\<rparr>,
      w @ [''validateAgents''])"

definition demo_params :: "(unit, unit) params" where
  "demo_params = \<lparr>agentTemplates = None, logger = ()\<rparr>"

section \<open>The agent runtime\<close>

text \<open>
  The execution engine (\<^verbatim>\<open>packages/agent-runtime\<close>: step loop, streaming tool-call
  processor, spawn coordinator, resource accountant) is not among the source files. One
  of its mechanisms is described by the specification step by step, and is modelled here
  from its words: the buffer that puts tool results back into issuance order (section
  4.2).
\<close>

subsection \<open>Tool calls and their results\<close>

text \<open>
  Modelled from the spec: the error taxonomy of section 7, whose code is missing.
\<close>

datatype error_kind =
  ValidationError | TransientProviderError | BudgetExceededError | CancellationError
  | RecursionLimitError

text \<open>
  Modelled from the spec: a tool result (section 3), whose type declaration is missing:
  "success payload (ordered list of typed content blocks) or failure marker with
  taxonomy kind". The type of a content block is a parameter.
\<close>

datatype 'b tool_result = Success "'b list" | Failure error_kind

text \<open>
  Modelled from the spec: a message of the history (section 3), whose type declaration is
  missing: a kind, a content and an optional tool-call or tool-result payload. A tool call
  carries its issuance index and tool name, a tool result the issuance index of its call.
\<close>

datatype 'b message =
  TextMessage string
  | ToolCallMessage nat string
  | ToolResultMessage nat "'b tool_result"

text \<open>
  Modelled from the spec: the state of the streaming tool-call processor during one
  model-driven step (section 4.2), whose code is missing: the message history, the
  results that have arrived and are not yet in the history, keyed by the issuance index
  of their call ("results are buffered"), and the issuance index whose result is the
  next to be appended.
\<close>

record 'b processor =
  history :: "'b message list"
  pending :: "(nat \<times> 'b tool_result) list"
  next_index :: nat

text \<open>
  Modelled from the spec: "flushed in issuance-index order" (section 4.2); the code is
  missing. While the buffer holds the result of the next index, that result is appended
  to the history and leaves the buffer.
\<close>

function flush :: "'b processor \<Rightarrow> 'b processor" where
  "flush p =
     (case map_of (pending p) (next_index p) of
        None \<Rightarrow> p
      | Some r \<Rightarrow>
          flush (p\<lparr>history := history p @ [ToolResultMessage (next_index p) r],
                  pending := AList.delete (next_index p) (pending p),
                  next_index := Suc (next_index p)\<rparr>))"
  by pat_completeness auto
termination
proof (relation "measure (\<lambda>p. length (pending p))")
  show "wf (measure (\<lambda>p :: 'b processor. length (pending p)))" by simp
next
  have shorter: "length (AList.delete k al) < length al"
    if "map_of al k = Some v" for k v and al :: "(nat \<times> 'b tool_result) list"
    using that
    by (induction al) (auto simp: less_Suc_eq_le length_delete_le split: if_splits)
  fix p :: "'b processor" and r
  assume "map_of (pending p) (next_index p) = Some r"
  then show "(p\<lparr>history := history p @ [ToolResultMessage (next_index p) r],
               pending := AList.delete (next_index p) (pending p),
               next_index := Suc (next_index p)\<rparr>, p)
             \<in> measure (\<lambda>p. length (pending p))"
    by (simp add: shorter)
qed

declare flush.simps [simp del]

text \<open>
  Modelled from the spec: the completion of one tool execution (section 4.2), whose code
  is missing. Executions may complete in any order; the result is buffered under the
  issuance index of its call, and the buffer is flushed as far as it goes.
\<close>

definition complete :: "nat \<times> 'b tool_result \<Rightarrow> 'b processor \<Rightarrow> 'b processor" where
  "complete c p = flush (p\<lparr>pending := AList.update (fst c) (snd c) (pending p)\<rparr>)"

text \<open>
  Modelled from the spec: one step of the processor (section 4.2), whose code is missing.
  It starts from the history so far with an empty buffer, the first result due being
  that of issuance index 0, and handles the completions in the order they arrive.
\<close>

definition start_step :: "'b message list \<Rightarrow> 'b processor" where
  "start_step h = \<lparr>history = h, pending = [], next_index = 0\<rparr>"

definition process_completions ::
  "'b message list \<Rightarrow> (nat \<times> 'b tool_result) list \<Rightarrow> 'b processor" where
  "process_completions h completions = fold complete completions (start_step h)"

text \<open>
  The invariant of the buffer, for the proofs: \<open>D\<close> is the set of issuance indices
  whose execution has completed and \<open>r i\<close> the result of call \<open>i\<close>. Every index below
  the next one has completed and its result is in the history, in order; the buffer
  holds exactly the completed results from the next index on.
\<close>

definition buffered ::
  "'b message list \<Rightarrow> (nat \<Rightarrow> 'b tool_result) \<Rightarrow> nat set \<Rightarrow> 'b processor \<Rightarrow> bool" where
  "buffered h r D p \<longleftrightarrow>
     (\<forall>i < next_index p. i \<in> D) \<and>
     history p = h @ map (\<lambda>i. ToolResultMessage i (r i)) [0..<next_index p] \<and>
     map_of (pending p) = (\<lambda>i. if i \<in> D \<and> next_index p \<le> i then Some (r i) else None)"

section \<open>Properties of the validation function\<close>

lemma spawnable_agent_check_returns:
  assumes "spawnable_agent_check collectAgentIds validateSpawnableAgents ps w = (Inr errs, w2)"
  obtains ids w1 where "collectAgentIds ps w = (Inr ids, w1)"
    and "validateSpawnableAgents
           \<lparr>spawnableAgents = spawnableAgentIds ids, dynamicAgentIds = agentIds ids\<rparr> w1
         = (Inr errs, w2)"
  using assms unfolding spawnable_agent_check_def
  by (auto split: prod.splits sum.splits)

text \<open>
  Claim C9. When the spawnable-agent check (\<^verbatim>\<open>validateSpawnableAgents\<close> over the ids
  collected from the parameters) returns a non-empty list of validation errors, the
  function returns empty \<open>templates\<close>, empty \<open>dynamicTemplates\<close> and exactly that
  list, in the world the check left; and \<^verbatim>\<open>validateAgents\<close> is not consulted: the
  outcome and the world after it are the same whatever \<^verbatim>\<open>validateAgents\<close> is.
\<close>

theorem invalid_spawnable_agents_yield_no_templates:
  assumes "spawnable_agent_check collectAgentIds validateSpawnableAgents ps w = (Inr errs, w2)"
    and "errs \<noteq> []"
  shows "validateAgentsWithSpawnableAgents collectAgentIds validateSpawnableAgents
           validateAgents ps w
         = (Inr \<lparr>templates = Map.empty, dynamicTemplates = Map.empty,
                 validationErrors = errs\<rparr>, w2)
       \<and> (\<forall>other. validateAgentsWithSpawnableAgents collectAgentIds validateSpawnableAgents
             other ps w
           = validateAgentsWithSpawnableAgents collectAgentIds validateSpawnableAgents
               validateAgents ps w)"
proof -
  from assms(1) obtain ids w1 where c: "collectAgentIds ps w = (Inr ids, w1)"
    and v: "validateSpawnableAgents
              \<lparr>spawnableAgents = spawnableAgentIds ids, dynamicAgentIds = agentIds ids\<rparr> w1
            = (Inr errs, w2)"
    by (rule spawnable_agent_check_returns)
  have r: "validateAgentsWithSpawnableAgents collectAgentIds validateSpawnableAgents va ps w
           = (Inr \<lparr>templates = Map.empty, dynamicTemplates = Map.empty,
                   validationErrors = errs\<rparr>, w2)" for va
    using c v assms(2) by (simp add: validateAgentsWithSpawnableAgents_def)
  show ?thesis by (simp add: r)
qed

theorem invalid_spawnable_agents_witness:
  "spawnable_agent_check (demo_collect [''base''] [''base'', ''ghost'']) demo_check
     demo_params []
   = (Inr [''ghost''], [''collectAgentIds'', ''validateSpawnableAgents''])
   \<and> validateAgentsWithSpawnableAgents (demo_collect [''base''] [''base'', ''ghost''])
       demo_check (demo_validate [''base'']) demo_params []
     = (Inr \<lparr>templates = Map.empty, dynamicTemplates = Map.empty,
             validationErrors = [''ghost'']\<rparr>,
        [''collectAgentIds'', ''validateSpawnableAgents''])"
proof -
  have h: "spawnable_agent_check (demo_collect [''base''] [''base'', ''ghost'']) demo_check
             demo_params []
           = (Inr [''ghost''], [''collectAgentIds'', ''validateSpawnableAgents''])"
    by (simp add: spawnable_agent_check_def demo_collect_def demo_check_def)
  have n: "[''ghost''] \<noteq> []" by simp
  from invalid_spawnable_agents_yield_no_templates [OF h n, of "demo_validate [''base'']"] h
  show ?thesis by simp
qed

text \<open>
  Claim C10. When the spawnable-agent check returns the empty list of validation errors,
  the outcome of the function is exactly the outcome of \<^verbatim>\<open>validateAgents\<close> on the
  same parameters (run in the world the check left): a returned object with all three of
  its fields, or its rejection.
\<close>

theorem valid_spawnable_agents_defer_to_validateAgents:
  assumes "spawnable_agent_check collectAgentIds validateSpawnableAgents ps w = (Inr [], w2)"
  shows "validateAgentsWithSpawnableAgents collectAgentIds validateSpawnableAgents
           validateAgents ps w
         = validateAgents ps w2"
proof -
  from assms obtain ids w1 where "collectAgentIds ps w = (Inr ids, w1)"
    and "validateSpawnableAgents
           \<lparr>spawnableAgents = spawnableAgentIds ids, dynamicAgentIds = agentIds ids\<rparr> w1
         = (Inr [], w2)"
    by (rule spawnable_agent_check_returns)
  then show ?thesis by (simp add: validateAgentsWithSpawnableAgents_def)
qed

theorem valid_spawnable_agents_witness:
  "spawnable_agent_check (demo_collect [''base'', ''helper''] [''helper'']) demo_check
     demo_params []
   = (Inr [], [''collectAgentIds'', ''validateSpawnableAgents''])
   \<and> validateAgentsWithSpawnableAgents (demo_collect [''base'', ''helper''] [''helper''])
       demo_check (demo_validate [''base'', ''helper'']) demo_params []
     = (Inr \<lparr>templates = map_of [(''base'', 0), (''helper'', 1)],
             dynamicTemplates = Map.empty,
             validationErrors = []\<rparr>,
        [''collectAgentIds'', ''validateSpawnableAgents'', ''validateAgents''])"
proof -
  have h: "spawnable_agent_check (demo_collect [''base'', ''helper''] [''helper''])
             demo_check demo_params []
           = (Inr [], [''collectAgentIds'', ''validateSpawnableAgents''])"
    by (simp add: spawnable_agent_check_def demo_collect_def demo_check_def)
  from valid_spawnable_agents_defer_to_validateAgents
         [OF h, of "demo_validate [''base'', ''helper'']"] h
  show ?thesis by (simp add: demo_validate_def upt_rec)
qed

section \<open>Properties of the tool-call processor\<close>

lemma bufferedI:
  "\<lbrakk>\<And>i. i < next_index p \<Longrightarrow> i \<in> D;
    history p = h @ map (\<lambda>i. ToolResultMessage i (r i)) [0..<next_index p];
    \<And>i. map_of (pending p) i = (if i \<in> D \<and> next_index p \<le> i then Some (r i) else None)\<rbrakk>
   \<Longrightarrow> buffered h r D p"
  unfolding buffered_def by blast

lemma buffered_below: "buffered h r D p \<Longrightarrow> i < next_index p \<Longrightarrow> i \<in> D"
  unfolding buffered_def by blast

lemma buffered_history:
  "buffered h r D p \<Longrightarrow> history p = h @ map (\<lambda>i. ToolResultMessage i (r i)) [0..<next_index p]"
  unfolding buffered_def by blast

lemma buffered_pending:
  "buffered h r D p \<Longrightarrow>
   map_of (pending p) i = (if i \<in> D \<and> next_index p \<le> i then Some (r i) else None)"
  unfolding buffered_def by metis

lemma flush_buffered:
  "buffered h r D p \<Longrightarrow> buffered h r D (flush p) \<and> next_index (flush p) \<notin> D"
proof (induction p rule: flush.induct)
  case (1 p)
  note b = "1.prems"
  show ?case
  proof (cases "map_of (pending p) (next_index p)")
    case None
    with buffered_pending [OF b, of "next_index p"] have "next_index p \<notin> D"
      by (simp split: if_splits)
    with None b show ?thesis by (simp add: flush.simps)
  next
    case (Some v)
    let ?q = "p\<lparr>history := history p @ [ToolResultMessage (next_index p) v],
                  pending := AList.delete (next_index p) (pending p),
                  next_index := Suc (next_index p)\<rparr>"
    from Some buffered_pending [OF b, of "next_index p"]
    have in_D: "next_index p \<in> D" and v: "v = r (next_index p)"
      by (simp_all split: if_splits)
    have "buffered h r D ?q"
    proof (rule bufferedI)
      fix i assume "i < next_index ?q"
      then have "i < next_index p \<or> i = next_index p" by auto
      with in_D buffered_below [OF b] show "i \<in> D" by blast
    next
      show "history ?q = h @ map (\<lambda>i. ToolResultMessage i (r i)) [0..<next_index ?q]"
        by (simp add: buffered_history [OF b] v)
    next
      fix i
      show "map_of (pending ?q) i = (if i \<in> D \<and> next_index ?q \<le> i then Some (r i) else None)"
        by (simp add: delete_conv' buffered_pending [OF b] Suc_le_eq)
    qed
    from "1.IH" [OF Some this] Some show ?thesis by (simp add: flush.simps)
  qed
qed

lemma complete_buffered:
  assumes b: "buffered h r D p" and "next_index p \<notin> D" and "c \<notin> D"
  shows "buffered h r (insert c D) (complete (c, r c) p) \<and>
         next_index (complete (c, r c) p) \<notin> insert c D"
proof -
  let ?q = "p\<lparr>pending := AList.update c (r c) (pending p)\<rparr>"
  from assms(3) buffered_below [OF b] have le: "next_index p \<le> c"
    by (meson not_le)
  have "buffered h r (insert c D) ?q"
  proof (rule bufferedI)
    fix i assume "i < next_index ?q"
    with buffered_below [OF b] show "i \<in> insert c D" by simp
  next
    show "history ?q = h @ map (\<lambda>i. ToolResultMessage i (r i)) [0..<next_index ?q]"
      by (simp add: buffered_history [OF b])
  next
    fix i
    show "map_of (pending ?q) i
          = (if i \<in> insert c D \<and> next_index ?q \<le> i then Some (r i) else None)"
      using le by (simp add: update_conv' buffered_pending [OF b])
  qed
  then show ?thesis unfolding complete_def fst_conv snd_conv by (rule flush_buffered)
qed

lemma fold_complete_buffered:
  assumes "buffered h r D p" "next_index p \<notin> D" "distinct cs" "set cs \<inter> D = {}"
  shows "buffered h r (set cs \<union> D) (fold complete (map (\<lambda>i. (i, r i)) cs) p) \<and>
         next_index (fold complete (map (\<lambda>i. (i, r i)) cs) p) \<notin> set cs \<union> D"
  using assms
proof (induction cs arbitrary: p D)
  case Nil
  then show ?case by simp
next
  case (Cons c cs)
  from Cons.prems have "c \<notin> D" by auto
  from complete_buffered [OF Cons.prems(1,2) this]
  have b: "buffered h r (insert c D) (complete (c, r c) p)"
    and n: "next_index (complete (c, r c) p) \<notin> insert c D" by simp_all
  from Cons.prems have "distinct cs" "set cs \<inter> insert c D = {}" by auto
  from Cons.IH [OF b n this] show ?case by simp
qed

text \<open>
  Claim C3. The calls of a step have the issuance indices \<open>0, \<dots>, n - 1\<close>, and call
  \<open>i\<close> has the result \<open>r i\<close>. In whatever order the \<open>n\<close> executions complete (each
  exactly once), the history ends up extended by the \<open>n\<close> results in the order of
  their issuance indices, and nothing is left in the buffer.
\<close>

theorem tool_results_in_issuance_order:
  assumes "mset order = mset [0..<n]"
  shows "process_completions h (map (\<lambda>i. (i, r i)) order)
         = \<lparr>history = h @ map (\<lambda>i. ToolResultMessage i (r i)) [0..<n],
            pending = [], next_index = n\<rparr>"
proof -
  let ?p = "process_completions h (map (\<lambda>i. (i, r i)) order)"
  from assms have "distinct order = distinct [0..<n]" by (rule mset_eq_imp_distinct_iff)
  then have d: "distinct order" by simp
  from assms have "set order = set [0..<n]" by (rule mset_eq_setD)
  then have s: "set order = {0..<n}" by simp
  have b0: "buffered h r {} (start_step h)"
    by (rule bufferedI) (simp_all add: start_step_def)
  have n0: "next_index (start_step h) \<notin> {}" by simp
  from d have i0: "set order \<inter> {} = {}" by simp
  from fold_complete_buffered [OF b0 n0 d i0] s
  have b: "buffered h r {0..<n} ?p" and nx: "next_index ?p \<notin> {0..<n}"
    by (simp_all add: process_completions_def)
  have "\<not> n < next_index ?p"
  proof
    assume "n < next_index ?p"
    from buffered_below [OF b this] show False by simp
  qed
  with nx have n: "next_index ?p = n" by simp
  have "map_of (pending ?p) i = None" for i
    using buffered_pending [OF b, of i] n by simp
  then have "map_of (pending ?p) = Map.empty" by (simp add: fun_eq_iff)
  then have e: "pending ?p = []" by simp
  from buffered_history [OF b] n
  have "history ?p = h @ map (\<lambda>i. ToolResultMessage i (r i)) [0..<n]" by simp
  with n e show ?thesis by (cases ?p) simp
qed

theorem tool_results_in_issuance_order_witness:
  "mset [2, 0, 1] = mset [0..<3] \<and>
   process_completions [TextMessage ''run the tests'']
     [(2, Success [''c'']), (0, Failure ValidationError), (1, Success [''a'', ''b''])]
   = \<lparr>history = [TextMessage ''run the tests'',
                   ToolResultMessage 0 (Failure ValidationError),
                   ToolResultMessage 1 (Success [''a'', ''b'']),
                   ToolResultMessage 2 (Success [''c''])],
      pending = [], next_index = 3\<rparr>"
proof -
  let ?r = "\<lambda>i::nat. if i = 0 then Failure ValidationError
                    else if i = 1 then Success [''a'', ''b''] else Success [''c'']"
  have h: "mset [2, 0, 1] = mset [0..<3]" by (simp add: upt_rec)
  from tool_results_in_issuance_order [OF h, of "[TextMessage ''run the tests'']" ?r] h
  show ?thesis by (simp add: upt_rec)
qed

end
